theory Spec2Isabelle
  imports Complex_Main "HOL-Library.Log_Nat"
begin

section \<open>Data model\<close>

text \<open>
  The \<^verbatim>\<open>Prospect\<close> interface of \<^verbatim>\<open>Dashboard.tsx\<close>. The stage is the union of the
  three string literals \<^verbatim>\<open>'new' | 'in_talks' | 'closed'\<close>. An optional field holds
  \<^verbatim>\<open>null\<close> when the column is empty, which is \<open>None\<close> here. A finite JavaScript number
  is represented by the rational it denotes. The fields \<^verbatim>\<open>id\<close>, \<^verbatim>\<open>value\<close> and \<^verbatim>\<open>notes\<close> carry a
  prime because the plain names are reserved.
\<close>

datatype stage = New | In_talks | Closed

record prospect =
  id' :: string
  user_id :: string
  full_name :: string
  email :: string
  phone :: "string option"
  company :: "string option"
  stage :: stage
  value' :: "rat option"
  notes' :: "string option"
  created_at :: string

text \<open>A notification handed to \<^verbatim>\<open>toast\<close>; \<open>destructive\<close> records \<^verbatim>\<open>variant: "destructive"\<close>.\<close>

record toast =
  title :: string
  description :: string
  destructive :: bool

section \<open>Numbers of the language\<close>

text \<open>
  A JavaScript number is a double. Every arithmetic operation returns the exact result
  rounded to the nearest double, ties to the even significand. \<open>ilog2 q\<close> is the binary
  exponent \<open>e\<close> of a positive \<open>q\<close>, the one with \<open>2 powi e \<le> q < 2 powi (e + 1)\<close>; a
  double with that exponent is a multiple of \<open>2 powi (e - 52)\<close>. The exponent range is
  left out: the numbers computed here are list lengths, ratios of two of them and sums of
  amounts of a \<^verbatim>\<open>DECIMAL(10,2)\<close> column, all far from overflow and from the subnormal
  range. Not-a-number and the infinities do not arise from these operations on the finite
  numbers the table can hold. Negative zero is not told apart from zero: both are falsy,
  add alike and print alike.
\<close>

definition ilog2 :: "rat \<Rightarrow> int" where
  "ilog2 q = (if 1 \<le> q then bitlen \<lfloor>q\<rfloor> - 1 else - bitlen (\<lceil>1 / q\<rceil> - 1))"

definition roundTiesToEven :: "rat \<Rightarrow> int" where
  "roundTiesToEven x =
     (let f = \<lfloor>x\<rfloor>; d = x - of_int f in
      if d < 1 / 2 then f else if 1 / 2 < d then f + 1 else if even f then f else f + 1)"

definition to_double_pos :: "rat \<Rightarrow> rat" where
  "to_double_pos q = (let u = 2 powi (ilog2 q - 52) in of_int (roundTiesToEven (q / u)) * u)"

definition to_double :: "rat \<Rightarrow> rat" where
  "to_double q = (if q = 0 then 0 else if 0 < q then to_double_pos q else - to_double_pos (- q))"

definition js_add :: "rat \<Rightarrow> rat \<Rightarrow> rat" where
  "js_add a b = to_double (a + b)"

definition js_mul :: "rat \<Rightarrow> rat \<Rightarrow> rat" where
  "js_mul a b = to_double (a * b)"

text \<open>Division, for a divisor that is not zero (the only use below is behind such a test).\<close>

definition js_div :: "rat \<Rightarrow> rat \<Rightarrow> rat" where
  "js_div a b = to_double (a / b)"

text \<open>
  \<^verbatim>\<open>Number.prototype.toFixed\<close> with one fraction digit, for a number below \<open>10 ^ 21\<close> in
  magnitude: \<open>n\<close> is the integer for which \<open>n / 10 - x\<close> is closest to zero, the larger one
  of two; its decimal digits are padded to two with a leading zero and the point goes
  before the last digit.
\<close>

definition digit_char :: "nat \<Rightarrow> char" where
  "digit_char d = ''0123456789'' ! d"

fun decimal :: "nat \<Rightarrow> string" where
  "decimal n = (if n < 10 then [digit_char n] else decimal (n div 10) @ [digit_char (n mod 10)])"

definition toFixed1 :: "rat \<Rightarrow> string" where
  "toFixed1 x =
     (let s = (if x < 0 then ''-'' else []);
          n = nat \<lfloor>\<bar>x\<bar> * 10 + 1 / 2\<rfloor>;
          m = decimal n;
          m = (if length m \<le> 1 then replicate (2 - length m) CHR ''0'' @ m else m);
          k = length m
      in s @ take (k - 1) m @ ''.'' @ drop (k - 1) m)"

section \<open>Pipeline board: \<^verbatim>\<open>Dashboard.tsx\<close>\<close>

text \<open>
  The keys of \<^verbatim>\<open>stageConfig\<close> are the three stages, and each column is a droppable whose
  \<^verbatim>\<open>droppableId\<close> is its key; only the title of an entry is used by the handlers.
\<close>

fun stageConfig_title :: "stage \<Rightarrow> string" where
  "stageConfig_title New = ''New Prospects''"
| "stageConfig_title In_talks = ''In Talks''"
| "stageConfig_title Closed = ''Closed Deals''"

text \<open>
  The drop result of the drag-and-drop library: the column the card came from, the column
  it was dropped on (absent when it was dropped outside every column) and the id of the
  dragged card, which is the prospect's id.
\<close>

record drop_result =
  source :: stage
  destination :: "stage option"
  draggableId :: string

text \<open>
  What the storage collaborator answers to a request: \<^verbatim>\<open>error\<close> is null, or it is set (or
  the call throws), and then control reaches the \<^verbatim>\<open>catch\<close> block.
\<close>

datatype response = Succeeded | Failed

text \<open>The requests the board sends to the \<^verbatim>\<open>prospects\<close> table.\<close>

datatype request = Update_stage string stage | Delete_row string

text \<open>
  A handler is a function of the in-memory list and of the answer the collaborator gives
  if it is asked. It returns the list as \<^verbatim>\<open>setProspects\<close> leaves it, the requests that
  were sent and the notifications that were shown. \<^verbatim>\<open>handleDragEnd\<close> is lines 85 to 125
  of \<^verbatim>\<open>Dashboard.tsx\<close> and \<^verbatim>\<open>handleDeleteProspect\<close> lines 127 to 149.
\<close>

record outcome =
  prospects :: "prospect list"
  requests :: "request list"
  toasts :: "toast list"

definition handleDragEnd :: "response \<Rightarrow> drop_result \<Rightarrow> prospect list \<Rightarrow> outcome" where
  "handleDragEnd resp result prev =
     (case destination result of
        None \<Rightarrow> \<lparr>prospects = prev, requests = [], toasts = []\<rparr>
      | Some dest \<Rightarrow>
          if source result = dest then \<lparr>prospects = prev, requests = [], toasts = []\<rparr>
          else
            (let newStage = dest in
             case resp of
               Succeeded \<Rightarrow>
                 \<lparr>prospects =
                    map (\<lambda>prospect.
                           if id' prospect = draggableId result
                           then prospect\<lparr>stage := newStage\<rparr>
                           else prospect) prev,
                  requests = [Update_stage (draggableId result) newStage],
                  toasts = [\<lparr>title = ''Prospect moved'',
                             description = ''Moved to '' @ stageConfig_title newStage,
                             destructive = False\<rparr>]\<rparr>
             | Failed \<Rightarrow>
                 \<lparr>prospects = prev,
                  requests = [Update_stage (draggableId result) newStage],
                  toasts = [\<lparr>title = ''Error'',
                             description = ''Failed to update prospect stage'',
                             destructive = True\<rparr>]\<rparr>))"

definition handleDeleteProspect :: "response \<Rightarrow> string \<Rightarrow> prospect list \<Rightarrow> outcome" where
  "handleDeleteProspect resp prospectId prev =
     (case resp of
        Succeeded \<Rightarrow>
          \<lparr>prospects = filter (\<lambda>p. id' p \<noteq> prospectId) prev,
           requests = [Delete_row prospectId],
           toasts = [\<lparr>title = ''Prospect deleted'',
                      description = ''Prospect has been removed successfully'',
                      destructive = False\<rparr>]\<rparr>
      | Failed \<Rightarrow>
          \<lparr>prospects = prev,
           requests = [Delete_row prospectId],
           toasts = [\<lparr>title = ''Error'',
                      description = ''Failed to delete prospect'',
                      destructive = True\<rparr>]\<rparr>)"

text \<open>
  \<^verbatim>\<open>formatCurrency\<close> of the board (lines 160 to 166). \<^verbatim>\<open>!amount\<close> holds for an absent
  amount and for zero. The currency formatter of the platform is a parameter.
\<close>

definition formatCurrency :: "(rat \<Rightarrow> string) \<Rightarrow> rat option \<Rightarrow> string" where
  "formatCurrency format amount =
     (case amount of
        None \<Rightarrow> []
      | Some a \<Rightarrow> if a = 0 then [] else format a)"

text \<open>
  The child of the card header written \<^verbatim>\<open>{prospect.value && (<Badge ...>...</Badge>)}\<close>
  (lines 305 to 309).
  The operator \<^verbatim>\<open>&&\<close> yields its left operand when that is falsy and its right operand
  otherwise, so the child is \<^verbatim>\<open>null\<close> for an absent value, the number \<^verbatim>\<open>0\<close> for the
  value zero and the badge for any other value. React renders nothing for a \<^verbatim>\<open>null\<close>
  child and renders a number child, zero included, as its text.
\<close>

datatype rendered = Nothing | Text_node string | Badge string

definition value_child :: "(rat \<Rightarrow> string) \<Rightarrow> prospect \<Rightarrow> rendered" where
  "value_child format p =
     (case value' p of
        None \<Rightarrow> Nothing
      | Some v \<Rightarrow>
          if v = 0 then Text_node ''0''
          else Badge (formatCurrency format (value' p)))"

section \<open>Metrics aggregator: \<^verbatim>\<open>MetricsDialog.tsx\<close>\<close>

text \<open>
  Lines 39 to 49 of the dialog. The counts are lengths of filtered lists; the conversion
  rate is a string, \<^verbatim>\<open>toFixed(1)\<close> of the percentage behind the test \<^verbatim>\<open>totalProspects > 0\<close>
  and the literal \<^verbatim>\<open>'0'\<close> otherwise; the two values are \<^verbatim>\<open>reduce\<close> from the left.
\<close>

definition totalProspects :: "prospect list \<Rightarrow> nat" where
  "totalProspects ps = length ps"

definition newProspects :: "prospect list \<Rightarrow> nat" where
  "newProspects ps = length (filter (\<lambda>p. stage p = New) ps)"

definition inTalksProspects :: "prospect list \<Rightarrow> nat" where
  "inTalksProspects ps = length (filter (\<lambda>p. stage p = In_talks) ps)"

definition closedProspects :: "prospect list \<Rightarrow> nat" where
  "closedProspects ps = length (filter (\<lambda>p. stage p = Closed) ps)"

definition conversionRate :: "prospect list \<Rightarrow> string" where
  "conversionRate ps =
     (if totalProspects ps > 0
      then toFixed1 (js_mul (js_div (of_nat (closedProspects ps)) (of_nat (totalProspects ps))) 100)
      else ''0'')"

text \<open>\<^verbatim>\<open>p.value || 0\<close>: the value, or zero when it is absent (or is itself zero).\<close>

definition value_or_0 :: "prospect \<Rightarrow> rat" where
  "value_or_0 p = (case value' p of None \<Rightarrow> 0 | Some v \<Rightarrow> if v = 0 then 0 else v)"

definition totalValue :: "prospect list \<Rightarrow> rat" where
  "totalValue ps = foldl (\<lambda>sum p. js_add sum (value_or_0 p)) 0 ps"

definition closedValue :: "prospect list \<Rightarrow> rat" where
  "closedValue ps =
     foldl (\<lambda>sum p. js_add sum (value_or_0 p)) 0 (filter (\<lambda>p. stage p = Closed) ps)"

text \<open>
  The sum of a list of numbers as the language computes it: from the left, starting at
  zero, each addition rounded.
\<close>

definition js_sum :: "rat list \<Rightarrow> rat" where
  "js_sum xs = foldl js_add 0 xs"

section \<open>Create form: \<^verbatim>\<open>AddProspectDialog.tsx\<close>\<close>

text \<open>
  The form data maps a field name to the text of the field; \<^verbatim>\<open>get\<close> returns \<^verbatim>\<open>null\<close> for
  a name the form does not carry. A string is falsy exactly when it is empty, so
  \<^verbatim>\<open>s || null\<close> is \<open>or_null s\<close>, and \<^verbatim>\<open>s ? f(s) : null\<close> applies \<open>f\<close> exactly when
  \<open>or_null s\<close> is present. \<^verbatim>\<open>parseFloat\<close> is a parameter.
\<close>

definition or_null :: "string option \<Rightarrow> string option" where
  "or_null s = (case s of None \<Rightarrow> None | Some t \<Rightarrow> if t = [] then None else Some t)"

record 'n prospectData =
  pd_user_id :: string
  pd_full_name :: "string option"
  pd_email :: "string option"
  pd_phone :: "string option"
  pd_company :: "string option"
  pd_stage :: string
  pd_value :: "'n option"
  pd_notes :: "string option"

text \<open>
  The payload \<^verbatim>\<open>handleSubmit\<close> builds (lines 29 to 38) and passes to \<^verbatim>\<open>insert\<close>;
  \<open>user\<close> is the id of the signed-in user, and without one the handler returns before
  it builds anything.
\<close>

definition handleSubmit ::
  "(string \<Rightarrow> 'n) \<Rightarrow> string option \<Rightarrow> (string \<rightharpoonup> string) \<Rightarrow> 'n prospectData option" where
  "handleSubmit parseFloat user formData =
     (case user of
        None \<Rightarrow> None
      | Some uid \<Rightarrow>
          Some \<lparr>pd_user_id = uid,
                pd_full_name = formData ''fullName'',
                pd_email = formData ''email'',
                pd_phone = or_null (formData ''phone''),
                pd_company = or_null (formData ''company''),
                pd_stage = (case or_null (formData ''stage'') of None \<Rightarrow> ''new'' | Some s \<Rightarrow> s),
                pd_value = (case or_null (formData ''value'') of
                              None \<Rightarrow> None
                            | Some s \<Rightarrow> Some (parseFloat s)),
                pd_notes = or_null (formData ''notes'')\<rparr>)"

section \<open>Auth screen\<close>

text \<open>\<^verbatim>\<open>String.prototype.includes\<close>: the search string occurs at some position.\<close>

fun startsWith :: "string \<Rightarrow> string \<Rightarrow> bool" where
  "startsWith s [] = True"
| "startsWith [] (c # cs) = False"
| "startsWith (d # ds) (c # cs) = (d = c \<and> startsWith ds cs)"

fun includes' :: "string \<Rightarrow> string \<Rightarrow> bool" where
  "includes' [] search = (search = [])"
| "includes' (c # s) search = (startsWith (c # s) search \<or> includes' s search)"

text \<open>
  \<^verbatim>\<open>handleSignUp\<close> of the auth page, after the identity collaborator has answered (lines
  55 to 79): \<open>error\<close> is the message of the error it returned, absent when the sign-up
  went through. The result is the notification shown.
\<close>

definition handleSignUp :: "string option \<Rightarrow> toast" where
  "handleSignUp error =
     (case error of
        Some message \<Rightarrow>
          if includes' message ''already registered''
          then \<lparr>title = ''Account exists'',
                description = ''This email is already registered. Please sign in instead.'',
                destructive = True\<rparr>
          else \<lparr>title = ''Sign up failed'',
                description = message,
                destructive = True\<rparr>
      | None \<Rightarrow>
          \<lparr>title = ''Account created!'',
           description = ''Please check your email to verify your account.'',
           destructive = False\<rparr>)"

section \<open>Example data\<close>

text \<open>A prospect with the given id, stage and value, used where a theorem is instantiated.\<close>

definition example_prospect :: "string \<Rightarrow> stage \<Rightarrow> rat option \<Rightarrow> prospect" where
  "example_prospect i s v =
     \<lparr>id' = i, user_id = ''u1'', full_name = ''Ann Lee'', email = ''ann@example.org'',
      phone = None, company = Some ''Acme'', stage = s, value' = v, notes' = None,
      created_at = ''2025-08-05T08:03:48Z''\<rparr>"

section \<open>Substrings\<close>

text \<open>\<open>includes'\<close> holds exactly when the search string stands between some prefix and suffix.\<close>

lemma startsWith_iff: "startsWith s search \<longleftrightarrow> (\<exists>post. s = search @ post)"
  by (induction s search rule: startsWith.induct) auto

lemma includes'_iff: "includes' s search \<longleftrightarrow> (\<exists>pre post. s = pre @ search @ post)"
proof (induction s)
  case Nil
  then show ?case by auto
next
  case (Cons c s)
  show ?case
  proof
    assume "includes' (c # s) search"
    then consider "startsWith (c # s) search" | "includes' s search" by auto
    then show "\<exists>pre post. c # s = pre @ search @ post"
    proof cases
      case 1
      then obtain post where "c # s = search @ post" by (auto simp: startsWith_iff)
      then have "c # s = [] @ search @ post" by simp
      then show ?thesis by blast
    next
      case 2
      then obtain pre post where "s = pre @ search @ post" using Cons.IH by auto
      then have "c # s = (c # pre) @ search @ post" by simp
      then show ?thesis by blast
    qed
  next
    assume "\<exists>pre post. c # s = pre @ search @ post"
    then obtain pre post where e: "c # s = pre @ search @ post" by auto
    show "includes' (c # s) search"
    proof (cases pre)
      case Nil
      then have "startsWith (c # s) search" using e by (auto simp: startsWith_iff)
      then show ?thesis by simp
    next
      case (Cons a pre')
      then have "s = pre' @ search @ post" using e by simp
      then have "includes' s search" using Cons.IH by blast
      then show ?thesis by simp
    qed
  qed
qed

section \<open>Rounding to a double\<close>

subsection \<open>The binary exponent\<close>

text \<open>
  \<open>ilog2\<close> finds the binade of a positive rational, from the bit length of its integer
  part when it is at least one and of the ceiling of its inverse otherwise.
\<close>

lemma ilog2_ge1:
  fixes q :: rat
  assumes "1 \<le> q"
  shows "2 powi (ilog2 q) \<le> q \<and> q < 2 powi (ilog2 q + 1)"
proof -
  let ?x = "\<lfloor>q\<rfloor>"
  have xpos: "0 < ?x" using assms by linarith
  have b: "2 ^ nat (bitlen ?x - 1) \<le> ?x" "?x < 2 ^ nat (bitlen ?x)"
    using bitlen_bounds[OF xpos] by auto
  have bl: "1 \<le> bitlen ?x" using xpos by (auto simp: bitlen_alt_def)
  have e: "ilog2 q = bitlen ?x - 1" using assms by (simp add: ilog2_def)
  have "(2::rat) powi (bitlen ?x - 1) = 2 ^ nat (bitlen ?x - 1)"
    using bl by (simp add: power_int_def)
  also have "\<dots> = of_int (2 ^ nat (bitlen ?x - 1))" by simp
  also have "\<dots> \<le> of_int ?x" using b(1) by (simp only: of_int_le_iff)
  also have "\<dots> \<le> q" by simp
  finally have lo: "2 powi (ilog2 q) \<le> q" using e by simp
  have "?x + 1 \<le> 2 ^ nat (bitlen ?x)" using b(2) by simp
  then have "(of_int (?x + 1) :: rat) \<le> of_int (2 ^ nat (bitlen ?x))"
    by (simp only: of_int_le_iff)
  moreover have "q < of_int (?x + 1)" by linarith
  ultimately have "q < of_int (2 ^ nat (bitlen ?x))" by linarith
  also have "\<dots> = 2 ^ nat (bitlen ?x)" by simp
  also have "\<dots> = 2 powi (bitlen ?x)" using bl by (simp add: power_int_def)
  finally have hi: "q < 2 powi (ilog2 q + 1)" using e by simp
  show ?thesis using lo hi by simp
qed

lemma ilog2_lt1:
  fixes q :: rat
  assumes "0 < q" "q < 1"
  shows "2 powi (ilog2 q) \<le> q \<and> q < 2 powi (ilog2 q + 1)"
proof -
  let ?r = "1 / q"
  let ?m = "\<lceil>?r\<rceil>"
  have r1: "1 < ?r" using assms by simp
  have m2: "2 \<le> ?m" using r1 by linarith
  let ?j = "bitlen (?m - 1)"
  have xpos: "0 < ?m - 1" using m2 by simp
  have b: "2 ^ nat (?j - 1) \<le> ?m - 1" "?m - 1 < 2 ^ nat ?j"
    using bitlen_bounds[OF xpos] by auto
  have jl: "1 \<le> ?j" using xpos by (auto simp: bitlen_alt_def)
  have e: "ilog2 q = - ?j" using assms by (simp add: ilog2_def)
  have "?m \<le> 2 ^ nat ?j" using b(2) by simp
  then have "(of_int ?m :: rat) \<le> of_int (2 ^ nat ?j)" by (simp only: of_int_le_iff)
  moreover have "?r \<le> of_int ?m" by (rule le_of_int_ceiling)
  moreover have "(of_int (2 ^ nat ?j) :: rat) = 2 ^ nat ?j" by simp
  ultimately have "?r \<le> 2 ^ nat ?j" by linarith
  then have "1 \<le> q * 2 ^ nat ?j" using assms by (simp add: field_simps)
  then have "1 / 2 ^ nat ?j \<le> q" by (simp add: field_simps)
  moreover have "(2::rat) powi (- ?j) = 1 / 2 ^ nat ?j"
    using jl by (simp add: power_int_def field_simps)
  ultimately have lo: "2 powi (ilog2 q) \<le> q" using e by simp
  have "(of_int (2 ^ nat (?j - 1)) :: rat) \<le> of_int (?m - 1)" using b(1) by (simp only: of_int_le_iff)
  moreover have "of_int (?m - 1) < ?r" by linarith
  ultimately have "2 ^ nat (?j - 1) < ?r" by simp
  then have "q * 2 ^ nat (?j - 1) < 1" using assms by (simp add: field_simps)
  then have "q < 1 / 2 ^ nat (?j - 1)" by (simp add: field_simps)
  moreover have "(2::rat) powi (- ?j + 1) = 1 / 2 ^ nat (?j - 1)"
  proof -
    have "- ?j + 1 = - (?j - 1)" by simp
    then have "(2::rat) powi (- ?j + 1) = 2 powi (- (?j - 1))" by simp
    also have "\<dots> = 1 / 2 ^ nat (?j - 1)"
      using jl by (simp add: power_int_def field_simps)
    finally show ?thesis .
  qed
  ultimately have hi: "q < 2 powi (ilog2 q + 1)" using e by simp
  show ?thesis using lo hi by simp
qed

lemma ilog2_bounds:
  fixes q :: rat
  assumes "0 < q"
  shows "2 powi (ilog2 q) \<le> q" and "q < 2 powi (ilog2 q + 1)"
  using ilog2_ge1[of q] ilog2_lt1[of q] assms by (cases "1 \<le> q"; simp)+

lemma ilog2_unique:
  fixes q :: rat
  assumes "0 < q" "2 powi e \<le> q" "q < 2 powi (e + 1)"
  shows "ilog2 q = e"
proof -
  have a: "(2::rat) powi (ilog2 q) < 2 powi (e + 1)"
    using ilog2_bounds(1)[OF assms(1)] assms(3) by linarith
  have b: "(2::rat) powi e < 2 powi (ilog2 q + 1)"
    using ilog2_bounds(2)[OF assms(1)] assms(2) by linarith
  have "\<not> e + 1 \<le> ilog2 q"
  proof
    assume "e + 1 \<le> ilog2 q"
    then have "(2::rat) powi (e + 1) \<le> 2 powi (ilog2 q)" by (intro power_int_increasing) auto
    then show False using a by simp
  qed
  moreover have "\<not> ilog2 q + 1 \<le> e"
  proof
    assume "ilog2 q + 1 \<le> e"
    then have "(2::rat) powi (ilog2 q + 1) \<le> 2 powi e" by (intro power_int_increasing) auto
    then show False using b by simp
  qed
  ultimately show ?thesis by simp
qed

subsection \<open>Rounding is monotone and idempotent\<close>

text \<open>
  The significand of a rounded positive number lies between \<open>2 ^ 52\<close> and \<open>2 ^ 53\<close>, so the
  result stays in the closure of the binade. Rounding preserves order, fixes what is
  already a double, and moves a number by at most the fraction \<open>1 / 2 ^ 53\<close> of itself.
\<close>

lemma roundTiesToEven_close: "\<bar>of_int (roundTiesToEven x) - x\<bar> \<le> 1 / 2"
proof -
  have "of_int \<lfloor>x\<rfloor> \<le> x" "x < of_int \<lfloor>x\<rfloor> + 1" by linarith+
  then show ?thesis by (auto simp: roundTiesToEven_def Let_def)
qed

lemma roundTiesToEven_of_int [simp]: "roundTiesToEven (of_int k) = k"
  by (simp add: roundTiesToEven_def)

lemma roundTiesToEven_mono:
  assumes "x \<le> y"
  shows "roundTiesToEven x \<le> roundTiesToEven y"
proof (rule ccontr)
  assume "\<not> roundTiesToEven x \<le> roundTiesToEven y"
  then have "roundTiesToEven y + 1 \<le> roundTiesToEven x" by simp
  then have l: "(of_int (roundTiesToEven y) :: rat) + 1 \<le> of_int (roundTiesToEven x)"
    by (metis of_int_1 of_int_add of_int_le_iff)
  have "x = y"
    using roundTiesToEven_close[of x] roundTiesToEven_close[of y] l assms by linarith
  then show False using \<open>\<not> roundTiesToEven x \<le> roundTiesToEven y\<close> by simp
qed

lemma scaled_range:
  fixes q :: rat
  assumes "0 < q"
  shows "2 ^ 52 \<le> q / 2 powi (ilog2 q - 52)" and "q / 2 powi (ilog2 q - 52) < 2 ^ 53"
proof -
  let ?e = "ilog2 q"
  have u: "(0::rat) < 2 powi (?e - 52)" by simp
  have a: "(2::rat) powi ?e = 2 ^ 52 * 2 powi (?e - 52)"
    by (simp add: power_int_diff)
  have b: "(2::rat) powi (?e + 1) = 2 ^ 53 * 2 powi (?e - 52)"
    by (simp add: power_int_diff power_int_add)
  show "2 ^ 52 \<le> q / 2 powi (ilog2 q - 52)"
    using ilog2_bounds(1)[OF assms] a u by (simp add: pos_le_divide_eq)
  show "q / 2 powi (ilog2 q - 52) < 2 ^ 53"
    using ilog2_bounds(2)[OF assms] b u by (simp add: pos_divide_less_eq)
qed

lemma significand_range:
  fixes q :: rat
  assumes "0 < q"
  shows "2 ^ 52 \<le> roundTiesToEven (q / 2 powi (ilog2 q - 52))"
    and "roundTiesToEven (q / 2 powi (ilog2 q - 52)) \<le> 2 ^ 53"
proof -
  let ?s = "q / 2 powi (ilog2 q - 52)"
  have "(of_int (2 ^ 52) :: rat) \<le> ?s" using scaled_range(1)[OF assms] by simp
  then have "roundTiesToEven (of_int (2 ^ 52)) \<le> roundTiesToEven ?s"
    by (rule roundTiesToEven_mono)
  then show "2 ^ 52 \<le> roundTiesToEven ?s" by (simp only: roundTiesToEven_of_int)
  have "?s \<le> of_int (2 ^ 53)" using scaled_range(2)[OF assms] by simp
  then have "roundTiesToEven ?s \<le> roundTiesToEven (of_int (2 ^ 53))"
    by (rule roundTiesToEven_mono)
  then show "roundTiesToEven ?s \<le> 2 ^ 53" by (simp only: roundTiesToEven_of_int)
qed

lemma to_double_pos_range:
  fixes q :: rat
  assumes "0 < q"
  shows "2 powi (ilog2 q) \<le> to_double_pos q" and "to_double_pos q \<le> 2 powi (ilog2 q + 1)"
proof -
  let ?e = "ilog2 q"
  let ?u = "(2::rat) powi (?e - 52)"
  let ?m = "roundTiesToEven (q / ?u)"
  have u: "0 < ?u" by simp
  have a: "(2::rat) powi ?e = 2 ^ 52 * ?u" by (simp add: power_int_diff)
  have b: "(2::rat) powi (?e + 1) = 2 ^ 53 * ?u" by (simp add: power_int_diff power_int_add)
  have "(of_int (2 ^ 52) :: rat) \<le> of_int ?m"
    using significand_range(1)[OF assms] by (simp only: of_int_le_iff)
  then have "2 ^ 52 * ?u \<le> of_int ?m * ?u" using u by simp
  then show "2 powi ?e \<le> to_double_pos q" using a by (simp add: to_double_pos_def Let_def)
  have "(of_int ?m :: rat) \<le> of_int (2 ^ 53)"
    using significand_range(2)[OF assms] by (simp only: of_int_le_iff)
  then have "of_int ?m * ?u \<le> 2 ^ 53 * ?u" using u by simp
  then show "to_double_pos q \<le> 2 powi (?e + 1)" using b by (simp add: to_double_pos_def Let_def)
qed

lemma to_double_pos_positive: "0 < q \<Longrightarrow> 0 < to_double_pos q"
proof -
  assume q: "0 < q"
  have "(0::rat) < 2 powi (ilog2 q)" by simp
  then show ?thesis using to_double_pos_range(1)[OF q] by linarith
qed

lemma ilog2_mono:
  fixes q :: rat
  assumes "0 < q" "q \<le> r"
  shows "ilog2 q \<le> ilog2 r"
proof (rule ccontr)
  assume "\<not> ilog2 q \<le> ilog2 r"
  then have "ilog2 r + 1 \<le> ilog2 q" by simp
  then have "(2::rat) powi (ilog2 r + 1) \<le> 2 powi (ilog2 q)"
    by (intro power_int_increasing) auto
  moreover have "0 < r" using assms by simp
  ultimately show False
    using ilog2_bounds(1)[OF assms(1)] ilog2_bounds(2)[of r] assms(2) by linarith
qed

lemma to_double_pos_mono:
  fixes q :: rat
  assumes "0 < q" "q \<le> r"
  shows "to_double_pos q \<le> to_double_pos r"
proof -
  have r: "0 < r" using assms by simp
  consider "ilog2 q = ilog2 r" | "ilog2 q + 1 \<le> ilog2 r"
    using ilog2_mono[OF assms] by linarith
  then show ?thesis
  proof cases
    case 1
    let ?u = "(2::rat) powi (ilog2 r - 52)"
    have u: "0 < ?u" by simp
    have "q / ?u \<le> r / ?u" using assms(2) u by (simp add: divide_right_mono)
    then have "roundTiesToEven (q / ?u) \<le> roundTiesToEven (r / ?u)"
      by (rule roundTiesToEven_mono)
    then have "(of_int (roundTiesToEven (q / ?u)) :: rat) \<le> of_int (roundTiesToEven (r / ?u))"
      by (simp only: of_int_le_iff)
    then have "of_int (roundTiesToEven (q / ?u)) * ?u \<le> of_int (roundTiesToEven (r / ?u)) * ?u"
      using u by simp
    then show ?thesis using 1 by (simp add: to_double_pos_def Let_def)
  next
    case 2
    then have "(2::rat) powi (ilog2 q + 1) \<le> 2 powi (ilog2 r)"
      by (intro power_int_increasing) auto
    then show ?thesis
      using to_double_pos_range(2)[OF assms(1)] to_double_pos_range(1)[OF r] by linarith
  qed
qed

lemma to_double_mono:
  assumes "q \<le> r"
  shows "to_double q \<le> to_double r"
proof -
  consider "0 < q" | "q = 0" "r = 0" | "q = 0" "0 < r" | "q < 0" "0 \<le> r" | "q < 0" "r < 0"
    using assms by linarith
  then show ?thesis
  proof cases
    case 1
    then show ?thesis using assms to_double_pos_mono[of q r] by (simp add: to_double_def)
  next
    case 2
    then show ?thesis by simp
  next
    case 3
    then show ?thesis using to_double_pos_positive[of r] by (simp add: to_double_def)
  next
    case 4
    have "to_double q < 0" using 4 to_double_pos_positive[of "- q"] by (simp add: to_double_def)
    moreover have "0 \<le> to_double r"
      using 4 to_double_pos_positive[of r] by (cases "r = 0") (simp_all add: to_double_def)
    ultimately show ?thesis by simp
  next
    case 5
    then have "to_double_pos (- r) \<le> to_double_pos (- q)"
      using assms by (intro to_double_pos_mono) auto
    then show ?thesis using 5 by (simp add: to_double_def)
  qed
qed

lemma to_double_pos_idem:
  fixes q :: rat
  assumes "0 < q"
  shows "to_double_pos (to_double_pos q) = to_double_pos q"
proof -
  let ?e = "ilog2 q"
  let ?u = "(2::rat) powi (?e - 52)"
  let ?m = "roundTiesToEven (q / ?u)"
  let ?r = "to_double_pos q"
  have u: "0 < ?u" by simp
  have rdef: "?r = of_int ?m * ?u" by (simp add: to_double_pos_def Let_def)
  have rpos: "0 < ?r" using assms by (rule to_double_pos_positive)
  consider "?m < 2 ^ 53" | "?m = 2 ^ 53" using significand_range(2)[OF assms] by linarith
  then show ?thesis
  proof cases
    case 1
    then have "(of_int ?m :: rat) < of_int (2 ^ 53)" by (simp only: of_int_less_iff)
    then have "of_int ?m * ?u < 2 ^ 53 * ?u" using u by simp
    moreover have "(2::rat) powi (?e + 1) = 2 ^ 53 * ?u"
      by (simp add: power_int_diff power_int_add)
    ultimately have "?r < 2 powi (?e + 1)" using rdef by simp
    then have e: "ilog2 ?r = ?e"
      using ilog2_unique[OF rpos to_double_pos_range(1)[OF assms]] by simp
    have "?r / ?u = of_int ?m" using rdef u by simp
    then have "to_double_pos ?r = of_int (roundTiesToEven (of_int ?m)) * ?u"
      using e by (simp add: to_double_pos_def[of ?r] Let_def)
    then show ?thesis using rdef by simp
  next
    case 2
    have b: "(2::rat) powi (?e + 1) = 2 ^ 53 * ?u"
      by (simp add: power_int_diff power_int_add)
    have r2: "?r = 2 powi (?e + 1)" using rdef 2 b by simp
    have "?r < 2 powi (?e + 1 + 1)"
      unfolding r2 by (intro power_int_strict_increasing) auto
    then have e: "ilog2 ?r = ?e + 1"
      using ilog2_unique[OF rpos, of "?e + 1"] r2 by simp
    have u2: "(2::rat) powi (?e + 1 - 52) = 2 * ?u"
      by (simp add: power_int_diff power_int_add)
    have "?r / (2 * ?u) = of_int (2 ^ 52)" using r2 b u by simp
    then have "to_double_pos ?r = of_int (roundTiesToEven (of_int (2 ^ 52))) * (2 * ?u)"
      using e u2 by (simp add: to_double_pos_def[of ?r] Let_def)
    also have "\<dots> = 2 ^ 53 * ?u" by (simp only: roundTiesToEven_of_int) simp
    finally show ?thesis using r2 b by simp
  qed
qed

lemma to_double_idem: "to_double (to_double q) = to_double q"
proof -
  consider "q = 0" | "0 < q" | "q < 0" by linarith
  then show ?thesis
  proof cases
    case 1
    then show ?thesis by (simp add: to_double_def)
  next
    case 2
    then show ?thesis
      using to_double_pos_positive[of q] to_double_pos_idem[of q] by (simp add: to_double_def)
  next
    case 3
    then have "0 < - q" by simp
    then show ?thesis
      using 3 to_double_pos_positive[of "- q"] to_double_pos_idem[of "- q"]
      by (simp add: to_double_def)
  qed
qed

lemma to_double_pos_error:
  fixes q :: rat
  assumes "0 < q"
  shows "\<bar>to_double_pos q - q\<bar> \<le> q / 2 ^ 53"
proof -
  let ?e = "ilog2 q"
  let ?u = "(2::rat) powi (?e - 52)"
  let ?m = "roundTiesToEven (q / ?u)"
  have u: "0 < ?u" by simp
  have "to_double_pos q - q = (of_int ?m - q / ?u) * ?u"
    using u by (simp add: to_double_pos_def Let_def field_simps)
  then have "\<bar>to_double_pos q - q\<bar> = \<bar>of_int ?m - q / ?u\<bar> * ?u"
    using u by (simp add: abs_mult)
  also have "\<dots> \<le> 1 / 2 * ?u"
    using roundTiesToEven_close[of "q / ?u"] u by (intro mult_right_mono) auto
  also have "\<dots> \<le> q / 2 ^ 53"
  proof -
    have "2 ^ 52 * ?u \<le> q" using scaled_range(1)[OF assms] u by (simp add: pos_le_divide_eq)
    then show ?thesis by simp
  qed
  finally show ?thesis .
qed

subsection \<open>The percentage and its rendering\<close>

text \<open>
  The double \<^verbatim>\<open>(closed / total) * 100\<close> lies between 0 and 100, within \<open>1 / 2 ^ 45\<close> of the
  exact percentage, and \<open>toFixed1\<close> of a number that is not negative is the digits of its
  nearest tenths with the point before the last one.
\<close>

lemma to_double_error: "\<bar>to_double q - q\<bar> \<le> \<bar>q\<bar> / 2 ^ 53"
proof -
  consider "q = 0" | "0 < q" | "q < 0" by linarith
  then show ?thesis
  proof cases
    case 1
    then show ?thesis by (simp add: to_double_def)
  next
    case 2
    then show ?thesis using to_double_pos_error[of q] by (simp add: to_double_def)
  next
    case 3
    then have "\<bar>to_double_pos (- q) - (- q)\<bar> \<le> (- q) / 2 ^ 53"
      by (intro to_double_pos_error) simp
    then show ?thesis using 3 by (simp add: to_double_def)
  qed
qed

lemma to_double_nonneg: "0 \<le> q \<Longrightarrow> 0 \<le> to_double q"
  using to_double_mono[of 0 q] by (simp add: to_double_def)

lemma to_double_1: "to_double 1 = 1"
  by code_simp

lemma to_double_100: "to_double 100 = 100"
  by code_simp

lemma percentage_range:
  fixes c t :: nat
  assumes "0 < t" "c \<le> t"
  shows "0 \<le> js_mul (js_div (of_nat c) (of_nat t)) 100"
    and "js_mul (js_div (of_nat c) (of_nat t)) 100 \<le> 100"
    and "\<bar>js_mul (js_div (of_nat c) (of_nat t)) 100 - 100 * of_nat c / of_nat t\<bar> \<le> 1 / 2 ^ 45"
proof -
  let ?a = "of_nat c / of_nat t :: rat"
  let ?d = "js_div (of_nat c) (of_nat t)"
  let ?x = "js_mul ?d 100"
  have a0: "0 \<le> ?a" by simp
  have a1: "?a \<le> 1" using assms by simp
  have d0: "0 \<le> ?d" using a0 unfolding js_div_def by (rule to_double_nonneg)
  have d1: "?d \<le> 1" using to_double_mono[OF a1] by (simp add: js_div_def to_double_1)
  have de: "\<bar>?d - ?a\<bar> \<le> 1 / 2 ^ 53"
  proof -
    have "\<bar>?d - ?a\<bar> \<le> \<bar>?a\<bar> / 2 ^ 53" unfolding js_div_def by (rule to_double_error)
    also have "\<dots> \<le> 1 / 2 ^ 53" using a0 a1 by (simp add: divide_right_mono)
    finally show ?thesis .
  qed
  have p0: "0 \<le> ?d * 100" using d0 by simp
  have p1: "?d * 100 \<le> 100" using d1 by simp
  show x0: "0 \<le> ?x" using p0 unfolding js_mul_def by (rule to_double_nonneg)
  show x1: "?x \<le> 100" using to_double_mono[OF p1] by (simp add: js_mul_def to_double_100)
  have xe: "\<bar>?x - ?d * 100\<bar> \<le> 100 / 2 ^ 53"
  proof -
    have "\<bar>?x - ?d * 100\<bar> \<le> \<bar>?d * 100\<bar> / 2 ^ 53" unfolding js_mul_def by (rule to_double_error)
    also have "\<dots> \<le> 100 / 2 ^ 53" using p0 p1 by (simp add: divide_right_mono)
    finally show ?thesis .
  qed
  have tri: "\<bar>x - 100 * a\<bar> \<le> \<bar>x - d * 100\<bar> + 100 * \<bar>d - a\<bar>" for x d a :: rat
    by (simp add: abs_if split: if_splits)
  have "\<bar>?x - 100 * ?a\<bar> \<le> \<bar>?x - ?d * 100\<bar> + 100 * \<bar>?d - ?a\<bar>" by (rule tri)
  also have "\<dots> \<le> 100 / 2 ^ 53 + 100 * (1 / 2 ^ 53)"
    by (intro add_mono mult_left_mono xe de) simp
  also have "\<dots> \<le> 1 / 2 ^ 45" by simp
  finally show "\<bar>?x - 100 * of_nat c / of_nat t\<bar> \<le> 1 / 2 ^ 45" by simp
qed

lemma digit_char_0: "digit_char 0 = CHR ''0''"
  by (simp add: digit_char_def)

lemma decimal_small: "n < 10 \<Longrightarrow> decimal n = [digit_char n]"
  by simp

lemma decimal_nonempty: "decimal n \<noteq> []"
  by (induction n rule: decimal.induct) (subst decimal.simps, simp)

lemma toFixed1_nonneg:
  assumes "0 \<le> x"
  shows "toFixed1 x =
           decimal (nat \<lfloor>x * 10 + 1 / 2\<rfloor> div 10) @ ''.'' @ decimal (nat \<lfloor>x * 10 + 1 / 2\<rfloor> mod 10)"
proof -
  let ?n = "nat \<lfloor>x * 10 + 1 / 2\<rfloor>"
  have ax: "\<bar>x\<bar> = x" using assms by simp
  have s: "\<not> x < 0" using assms by simp
  show ?thesis
  proof (cases "?n < 10")
    case True
    then have m: "decimal ?n = [digit_char ?n]" by simp
    have "?n div 10 = 0" "?n mod 10 = ?n" using True by simp_all
    then have r: "decimal (?n div 10) = ''0''" "decimal (?n mod 10) = [digit_char ?n]"
      using True by (simp_all add: digit_char_0)
    show ?thesis unfolding r unfolding toFixed1_def ax using s m by (simp add: Let_def)
  next
    case False
    then have m: "decimal ?n = decimal (?n div 10) @ [digit_char (?n mod 10)]"
      by (subst decimal.simps) simp
    have r: "decimal (?n mod 10) = [digit_char (?n mod 10)]" by simp
    have ne: "decimal (?n div 10) \<noteq> []" by (rule decimal_nonempty)
    show ?thesis unfolding r unfolding toFixed1_def ax using s m ne by (simp add: Let_def)
  qed
qed

lemma tenths_close:
  fixes x :: rat
  assumes "0 \<le> x"
  shows "\<bar>of_nat (nat \<lfloor>x * 10 + 1 / 2\<rfloor>) / 10 - x\<bar> \<le> 1 / 20"
proof -
  let ?k = "\<lfloor>x * 10 + 1 / 2\<rfloor>"
  have k0: "0 \<le> ?k" using assms by simp
  then have e: "(of_nat (nat ?k) :: rat) = of_int ?k" by simp
  have "of_int ?k \<le> x * 10 + 1 / 2" "x * 10 + 1 / 2 < of_int ?k + 1" by linarith+
  then show ?thesis unfolding e by linarith
qed

subsection \<open>Sums\<close>

text \<open>
  The sum over a selection of the records never exceeds the sum over all of them when no
  summand is negative: the accumulator of the selection is a double below the other one,
  and stays so after each rounded addition.
\<close>

lemma totalValue_js_sum: "totalValue ps = js_sum (map value_or_0 ps)"
  by (simp add: totalValue_def js_sum_def foldl_map)

lemma closedValue_js_sum:
  "closedValue ps = js_sum (map value_or_0 (filter (\<lambda>p. stage p = Closed) ps))"
  by (simp add: closedValue_def js_sum_def foldl_map)

lemma value_or_0_nonneg:
  assumes "\<forall>v. value' p = Some v \<longrightarrow> 0 \<le> v"
  shows "0 \<le> value_or_0 p"
  using assms by (simp add: value_or_0_def split: option.splits)

lemma js_add_double: "to_double (js_add a b) = js_add a b"
  by (simp add: js_add_def to_double_idem)

lemma subsequence_sum_le:
  assumes "\<forall>p \<in> set ps. 0 \<le> value_or_0 p" "cs \<le> ts" "to_double cs = cs"
  shows "foldl (\<lambda>sum p. js_add sum (value_or_0 p)) cs (filter P ps)
           \<le> foldl (\<lambda>sum p. js_add sum (value_or_0 p)) ts ps"
  using assms
proof (induction ps arbitrary: cs ts)
  case Nil
  then show ?case by simp
next
  case (Cons p ps)
  have v: "0 \<le> value_or_0 p" using Cons.prems(1) by simp
  have rest: "\<forall>p \<in> set ps. 0 \<le> value_or_0 p" using Cons.prems(1) by simp
  show ?case
  proof (cases "P p")
    case True
    have "js_add cs (value_or_0 p) \<le> js_add ts (value_or_0 p)"
      unfolding js_add_def using Cons.prems(2) by (intro to_double_mono) simp
    then show ?thesis
      using True Cons.IH[OF rest _ js_add_double, of cs "value_or_0 p" "js_add ts (value_or_0 p)"]
      by simp
  next
    case False
    have "cs \<le> ts + value_or_0 p" using Cons.prems(2) v by simp
    then have "to_double cs \<le> to_double (ts + value_or_0 p)" by (rule to_double_mono)
    then have "cs \<le> js_add ts (value_or_0 p)" using Cons.prems(3) by (simp add: js_add_def)
    then show ?thesis
      using False Cons.IH[OF rest _ Cons.prems(3), of "js_add ts (value_or_0 p)"] by simp
  qed
qed

subsection \<open>Whole amounts add exactly\<close>

lemma ilog2_of_int_range:
  fixes k :: int
  assumes "0 < k" "k < 2 ^ 53"
  shows "0 \<le> ilog2 (of_int k)" and "ilog2 (of_int k) \<le> 52"
proof -
  let ?q = "of_int k :: rat"
  have q: "0 < ?q" using assms by simp
  have "(1 :: rat) \<le> of_int k" using assms(1) by simp
  then have "(2::rat) powi 0 < 2 powi (ilog2 ?q + 1)"
    using ilog2_bounds(2)[OF q] by simp
  then have "\<not> ilog2 ?q + 1 \<le> 0"
    using power_int_increasing[of "ilog2 ?q + 1" 0 "2::rat"] by auto
  then show "0 \<le> ilog2 ?q" by simp
  have "(of_int k :: rat) < of_int (2 ^ 53)" using assms(2) by (simp only: of_int_less_iff)
  then have "(2::rat) powi (ilog2 ?q) < 2 powi 53"
    using ilog2_bounds(1)[OF q] by simp
  then have "\<not> 53 \<le> ilog2 ?q"
    using power_int_increasing[of 53 "ilog2 ?q" "2::rat"] by auto
  then show "ilog2 ?q \<le> 52" by simp
qed

lemma to_double_of_int:
  fixes k :: int
  assumes "0 \<le> k" "k < 2 ^ 53"
  shows "to_double (of_int k) = of_int k"
proof (cases "k = 0")
  case True
  then show ?thesis by (simp add: to_double_def)
next
  case False
  then have kpos: "0 < k" using assms by simp
  let ?q = "of_int k :: rat"
  let ?e = "ilog2 ?q"
  obtain n where n: "n = nat (52 - ?e)" by simp
  have e: "?e - 52 = - int n" using ilog2_of_int_range(2)[OF kpos assms(2)] n by simp
  have u: "(2::rat) powi (?e - 52) = 1 / 2 ^ n"
    unfolding e by (simp add: power_int_minus field_simps)
  have "?q / (2 powi (?e - 52)) = of_int (k * 2 ^ n)" unfolding u by simp
  then have "to_double_pos ?q = of_int (roundTiesToEven (of_int (k * 2 ^ n))) * (1 / 2 ^ n)"
    by (simp add: to_double_pos_def Let_def u)
  also have "\<dots> = ?q" by (simp only: roundTiesToEven_of_int) simp
  finally show ?thesis using kpos by (simp add: to_double_def)
qed

lemma js_sum_whole:
  fixes ks :: "int list"
  assumes "\<forall>k \<in> set ks. 0 \<le> k" "0 \<le> a" "a + sum_list ks < 2 ^ 53"
  shows "foldl js_add (of_int a) (map of_int ks) = of_int (a + sum_list ks)"
  using assms
proof (induction ks arbitrary: a)
  case Nil
  then show ?case by simp
next
  case (Cons k ks)
  have k0: "0 \<le> k" using Cons.prems(1) by simp
  have s0: "0 \<le> sum_list ks" using Cons.prems(1) by (intro sum_list_nonneg) simp
  have "js_add (of_int a) (of_int k) = to_double (of_int (a + k))" by (simp add: js_add_def)
  also have "\<dots> = of_int (a + k)"
    using Cons.prems(2,3) k0 s0 by (intro to_double_of_int) auto
  finally have step: "js_add (of_int a) (of_int k) = of_int (a + k)" .
  have "foldl js_add (of_int (a + k)) (map of_int ks) = of_int (a + k + sum_list ks)"
    using Cons.prems k0 by (intro Cons.IH) (auto simp: add.assoc)
  then show ?case using step by (simp add: add.assoc)
qed

subsection \<open>The rounded sum and the exact one\<close>

text \<open>
  \<^verbatim>\<open>p.value || 0\<close> is the value with an absent one read as zero. A sum of \<open>n\<close> numbers added
  from the left, each addition rounded, is away from their exact sum by at most the sum
  of their magnitudes times \<open>(1 + 1 / 2 ^ 53) ^ n - 1\<close>; for whole numbers that are not
  negative and add up to less than \<open>2 ^ 53\<close> no addition rounds.
\<close>

lemma value_or_0_absent_as_0: "value_or_0 p = (case value' p of None \<Rightarrow> 0 | Some v \<Rightarrow> v)"
  by (simp add: value_or_0_def split: option.splits)

lemma value_or_0_eq: "value_or_0 = (\<lambda>p. case value' p of None \<Rightarrow> 0 | Some v \<Rightarrow> v)"
  by (rule ext) (rule value_or_0_absent_as_0)

lemma js_sum_error_aux:
  fixes e :: rat
  assumes e: "0 \<le> e"
    and r: "\<And>q. \<bar>to_double q - q\<bar> \<le> \<bar>q\<bar> * e"
  shows "\<bar>foldl js_add a xs - (a + sum_list xs)\<bar>
           \<le> (\<bar>a\<bar> + sum_list (map abs xs)) * ((1 + e) ^ length xs - 1)"
proof (induction xs arbitrary: a)
  case Nil
  then show ?case by simp
next
  case (Cons x xs)
  let ?a' = "js_add a x"
  let ?S = "sum_list xs"
  let ?T = "sum_list (map abs xs)"
  let ?g = "(1 + e) ^ length xs - 1"
  let ?B = "\<bar>a\<bar> + \<bar>x\<bar>"
  have T0: "0 \<le> ?T" by (intro sum_list_nonneg) auto
  have g0: "0 \<le> ?g" using e by simp
  have B0: "0 \<le> ?B" by simp
  have step: "\<bar>?a' - (a + x)\<bar> \<le> ?B * e"
  proof -
    have "\<bar>?a' - (a + x)\<bar> \<le> \<bar>a + x\<bar> * e" unfolding js_add_def by (rule r)
    also have "\<dots> \<le> ?B * e" using e by (intro mult_right_mono) simp_all
    finally show ?thesis .
  qed
  have a'abs: "\<bar>?a'\<bar> \<le> ?B * (1 + e)"
  proof -
    have "\<bar>?a'\<bar> \<le> \<bar>a + x\<bar> + \<bar>?a' - (a + x)\<bar>" by simp
    also have "\<dots> \<le> ?B + ?B * e" using step by (intro add_mono) simp_all
    finally show ?thesis by (simp add: algebra_simps)
  qed
  have IH: "\<bar>foldl js_add ?a' xs - (?a' + ?S)\<bar> \<le> (\<bar>?a'\<bar> + ?T) * ?g" by (rule Cons.IH)
  have "(\<bar>?a'\<bar> + ?T) * ?g \<le> (?B * (1 + e) + ?T * (1 + e)) * ?g"
  proof (intro mult_right_mono add_mono a'abs g0)
    show "?T \<le> ?T * (1 + e)" using T0 e by (simp add: mult_le_cancel_left1)
  qed
  then have b1: "\<bar>foldl js_add ?a' xs - (?a' + ?S)\<bar> \<le> (?B + ?T) * (1 + e) * ?g"
    using IH by (simp add: algebra_simps)
  have b2: "\<bar>?a' - (a + x)\<bar> \<le> (?B + ?T) * e"
  proof -
    have "?B * e \<le> (?B + ?T) * e" using T0 e by (intro mult_right_mono) simp_all
    then show ?thesis using step by linarith
  qed
  have "\<bar>foldl js_add ?a' xs - (a + x + ?S)\<bar>
          \<le> \<bar>foldl js_add ?a' xs - (?a' + ?S)\<bar> + \<bar>?a' - (a + x)\<bar>" by simp
  also have "\<dots> \<le> (?B + ?T) * (1 + e) * ?g + (?B + ?T) * e" using b1 b2 by (rule add_mono)
  also have "\<dots> = (?B + ?T) * ((1 + e) ^ length (x # xs) - 1)" by (simp add: algebra_simps)
  finally show ?case by (simp add: add.assoc)
qed

lemma js_sum_error:
  "\<bar>js_sum xs - sum_list xs\<bar> \<le> sum_list (map abs xs) * ((1 + 1 / 2 ^ 53) ^ length xs - 1)"
proof -
  have "\<bar>foldl js_add 0 xs - (0 + sum_list xs)\<bar>
          \<le> (\<bar>0\<bar> + sum_list (map abs xs)) * ((1 + 1 / 2 ^ 53) ^ length xs - 1)"
  proof (rule js_sum_error_aux)
    show "(0::rat) \<le> 1 / 2 ^ 53" by simp
    show "\<bar>to_double q - q\<bar> \<le> \<bar>q\<bar> * (1 / 2 ^ 53)" for q
      using to_double_error[of q] by simp
  qed
  then show ?thesis by (simp add: js_sum_def)
qed

lemma of_int_sum_list_rat: "(of_int (sum_list ks) :: rat) = sum_list (map of_int ks)"
  by (induction ks) simp_all

lemma js_sum_whole_exact:
  assumes "\<forall>x \<in> set xs. x \<in> \<int> \<and> 0 \<le> x" "sum_list xs < 2 ^ 53"
  shows "js_sum xs = sum_list xs"
proof -
  let ?ks = "map floor xs"
  have m: "map of_int ?ks = xs"
  proof (rule map_idI[of xs "of_int \<circ> floor", unfolded map_map[symmetric]])
    fix x assume "x \<in> set xs"
    then have "x \<in> \<int>" using assms(1) by simp
    then show "(of_int \<circ> floor) x = x" by (auto elim: Ints_cases)
  qed
  have k0: "\<forall>k \<in> set ?ks. 0 \<le> k" using assms(1) by auto
  have s: "(of_int (sum_list ?ks) :: rat) = sum_list xs"
    using m by (simp add: of_int_sum_list_rat)
  have "(of_int (sum_list ?ks) :: rat) < of_int (2 ^ 53)" using s assms(2) by simp
  then have "sum_list ?ks < 2 ^ 53" by (simp only: of_int_less_iff)
  then have "foldl js_add (of_int 0) (map of_int ?ks) = of_int (0 + sum_list ?ks)"
    using k0 by (intro js_sum_whole) simp_all
  then show ?thesis using m s by (simp add: js_sum_def)
qed

lemma sum_list_filter_le:
  fixes f :: "'a \<Rightarrow> rat"
  assumes "\<forall>x \<in> set xs. 0 \<le> f x"
  shows "sum_list (map f (filter P xs)) \<le> sum_list (map f xs)"
  using assms by (induction xs) (auto intro: add_increasing)

section \<open>Lists\<close>

text \<open>Mapping over a list with distinct keys changes the one element that has the key.\<close>

lemma map_single_update:
  assumes "distinct (map f xs)" "i < length xs"
  shows "map (\<lambda>x. if f x = f (xs ! i) then g x else x) xs = xs[i := g (xs ! i)]"
proof (rule nth_equalityI)
  show "length (map (\<lambda>x. if f x = f (xs ! i) then g x else x) xs) = length (xs[i := g (xs ! i)])"
    by simp
next
  fix j
  assume "j < length (map (\<lambda>x. if f x = f (xs ! i) then g x else x) xs)"
  then have j: "j < length xs" by simp
  have "f (xs ! j) = f (xs ! i) \<longleftrightarrow> j = i"
    using assms j nth_eq_iff_index_eq[of "map f xs" j i] by simp
  then show "map (\<lambda>x. if f x = f (xs ! i) then g x else x) xs ! j = xs[i := g (xs ! i)] ! j"
    using j assms(2) by (cases "j = i") simp_all
qed

section \<open>The metrics aggregator\<close>

text \<open>
  C1, as the code has it. For the empty list the conversion rate is the literal \<^verbatim>\<open>'0'\<close>,
  without a decimal place. For a list that is not empty it is \<^verbatim>\<open>toFixed(1)\<close> of the double
  \<open>x = (closed / total) * 100\<close>: the digits of \<open>n\<close> tenths with one digit after the point,
  where \<open>n\<close> is the number of tenths nearest to \<open>x\<close> (the larger one of two), and \<open>x\<close> is
  within \<open>1 / 2 ^ 45\<close> of the exact percentage.
\<close>

theorem conversionRate_rendering:
  "(totalProspects ps = 0 \<longrightarrow> conversionRate ps = ''0'') \<and>
   (0 < totalProspects ps \<longrightarrow>
      (let x = js_mul (js_div (of_nat (closedProspects ps)) (of_nat (totalProspects ps))) 100;
           n = nat \<lfloor>x * 10 + 1 / 2\<rfloor>
       in conversionRate ps = decimal (n div 10) @ ''.'' @ decimal (n mod 10) \<and>
          \<bar>of_nat n / 10 - x\<bar> \<le> 1 / 20 \<and>
          \<bar>x - 100 * of_nat (closedProspects ps) / of_nat (totalProspects ps)\<bar> \<le> 1 / 2 ^ 45))"
proof (intro conjI impI)
  assume "totalProspects ps = 0"
  then show "conversionRate ps = ''0''" by (simp add: conversionRate_def)
next
  assume t: "0 < totalProspects ps"
  have c: "closedProspects ps \<le> totalProspects ps"
    by (simp add: closedProspects_def totalProspects_def)
  let ?x = "js_mul (js_div (of_nat (closedProspects ps)) (of_nat (totalProspects ps))) 100"
  have x0: "0 \<le> ?x" using percentage_range(1)[OF t c] .
  have "conversionRate ps = toFixed1 ?x" using t by (simp add: conversionRate_def)
  then have r: "conversionRate ps =
      decimal (nat \<lfloor>?x * 10 + 1 / 2\<rfloor> div 10) @ ''.'' @ decimal (nat \<lfloor>?x * 10 + 1 / 2\<rfloor> mod 10)"
    using toFixed1_nonneg[OF x0] by simp
  show "let x = ?x; n = nat \<lfloor>x * 10 + 1 / 2\<rfloor>
        in conversionRate ps = decimal (n div 10) @ ''.'' @ decimal (n mod 10) \<and>
           \<bar>of_nat n / 10 - x\<bar> \<le> 1 / 20 \<and>
           \<bar>x - 100 * of_nat (closedProspects ps) / of_nat (totalProspects ps)\<bar> \<le> 1 / 2 ^ 45"
    unfolding Let_def using r tenths_close[OF x0] percentage_range(3)[OF t c] by blast
qed

text \<open>The theorem at the empty list and at a list of two prospects, one of them closed.\<close>

theorem conversionRate_rendering_witness:
  "conversionRate [] = ''0'' \<and>
   conversionRate [example_prospect ''p1'' Closed None, example_prospect ''p2'' New None] = ''50.0''"
proof -
  let ?ps = "[example_prospect ''p1'' Closed None, example_prospect ''p2'' New None]"
  have t: "totalProspects ?ps = 2" by (simp add: totalProspects_def)
  have c: "closedProspects ?ps = 1" by (simp add: closedProspects_def example_prospect_def)
  have e: "totalProspects [] = 0" by (simp add: totalProspects_def)
  have h: "nat \<lfloor>js_mul (js_div 1 2) 100 * 10 + 1 / 2\<rfloor> = 500" by code_simp
  show ?thesis
    using conversionRate_rendering[of "[]"] conversionRate_rendering[of ?ps]
    by (simp add: t c e h Let_def digit_char_def)
qed

text \<open>
  The claim as it was stated fails at the empty list: the rate shown there is not
  \<^verbatim>\<open>"0.0"\<close>.
\<close>

theorem conversionRate_empty_counterexample: "conversionRate [] \<noteq> ''0.0''"
  by (simp add: conversionRate_def totalProspects_def)

text \<open>
  The rounding is that of the double, not of the exact ratio: of 80 prospects with 23
  closed the exact percentage is 28.75, the double computed is just below it, and the rate
  shown is 28.7.
\<close>

lemma conversionRate_23_of_80:
  "conversionRate (replicate 23 (example_prospect ''c'' Closed None)
                   @ replicate 57 (example_prospect ''n'' New None)) = ''28.7''"
  by code_simp

text \<open>
  C5, as the code has it. The pipeline value is the sum of the values of all records, an
  absent value counted as zero, added from the left in double precision, and the closed
  value is that sum over the records in the closed stage. Each is away from the exact sum
  by at most the sum of the magnitudes times \<open>(1 + 1 / 2 ^ 53) ^ n - 1\<close>, for \<open>n\<close> records
  summed. When no present value is negative, the closed value is at most the pipeline
  value; when moreover the values are whole numbers and their exact sum is below
  \<open>2 ^ 53\<close>, both are the exact sums.
\<close>

theorem totalValue_rounded_sum:
  "totalValue ps = js_sum (map (\<lambda>p. case value' p of None \<Rightarrow> 0 | Some v \<Rightarrow> v) ps) \<and>
   closedValue ps
     = js_sum (map (\<lambda>p. case value' p of None \<Rightarrow> 0 | Some v \<Rightarrow> v)
                (filter (\<lambda>p. stage p = Closed) ps)) \<and>
   \<bar>totalValue ps - sum_list (map (\<lambda>p. case value' p of None \<Rightarrow> 0 | Some v \<Rightarrow> v) ps)\<bar>
     \<le> sum_list (map (\<lambda>p. case value' p of None \<Rightarrow> 0 | Some v \<Rightarrow> \<bar>v\<bar>) ps)
         * ((1 + 1 / 2 ^ 53) ^ length ps - 1) \<and>
   \<bar>closedValue ps
      - sum_list (map (\<lambda>p. case value' p of None \<Rightarrow> 0 | Some v \<Rightarrow> v)
                   (filter (\<lambda>p. stage p = Closed) ps))\<bar>
     \<le> sum_list (map (\<lambda>p. case value' p of None \<Rightarrow> 0 | Some v \<Rightarrow> \<bar>v\<bar>)
                   (filter (\<lambda>p. stage p = Closed) ps))
         * ((1 + 1 / 2 ^ 53) ^ length (filter (\<lambda>p. stage p = Closed) ps) - 1) \<and>
   ((\<forall>p \<in> set ps. \<forall>v. value' p = Some v \<longrightarrow> 0 \<le> v) \<longrightarrow> closedValue ps \<le> totalValue ps) \<and>
   ((\<forall>p \<in> set ps. \<forall>v. value' p = Some v \<longrightarrow> v \<in> \<int> \<and> 0 \<le> v) \<and>
    sum_list (map (\<lambda>p. case value' p of None \<Rightarrow> 0 | Some v \<Rightarrow> v) ps) < 2 ^ 53 \<longrightarrow>
      totalValue ps = sum_list (map (\<lambda>p. case value' p of None \<Rightarrow> 0 | Some v \<Rightarrow> v) ps) \<and>
      closedValue ps
        = sum_list (map (\<lambda>p. case value' p of None \<Rightarrow> 0 | Some v \<Rightarrow> v)
                     (filter (\<lambda>p. stage p = Closed) ps)))"
proof -
  let ?amt = "\<lambda>p. case value' p of None \<Rightarrow> 0 | Some v \<Rightarrow> (v::rat)"
  let ?abs = "\<lambda>p. case value' p of None \<Rightarrow> 0 | Some v \<Rightarrow> \<bar>v::rat\<bar>"
  let ?cl = "filter (\<lambda>p. stage p = Closed) ps"
  have ab: "map abs (map ?amt qs) = map ?abs qs" for qs :: "prospect list"
    by (simp add: comp_def split: option.splits)
  have t: "totalValue ps = js_sum (map ?amt ps)"
    by (simp add: totalValue_js_sum value_or_0_eq)
  have c: "closedValue ps = js_sum (map ?amt ?cl)"
    by (simp add: closedValue_js_sum value_or_0_eq)
  have te: "\<bar>totalValue ps - sum_list (map ?amt ps)\<bar>
              \<le> sum_list (map ?abs ps) * ((1 + 1 / 2 ^ 53) ^ length ps - 1)"
    unfolding t using js_sum_error[of "map ?amt ps"] by (simp only: ab length_map)
  have ce: "\<bar>closedValue ps - sum_list (map ?amt ?cl)\<bar>
              \<le> sum_list (map ?abs ?cl) * ((1 + 1 / 2 ^ 53) ^ length ?cl - 1)"
    unfolding c using js_sum_error[of "map ?amt ?cl"] by (simp only: ab length_map)
  have le: "closedValue ps \<le> totalValue ps"
    if "\<forall>p \<in> set ps. \<forall>v. value' p = Some v \<longrightarrow> 0 \<le> v"
  proof -
    have "\<forall>p \<in> set ps. 0 \<le> value_or_0 p" using that by (auto intro: value_or_0_nonneg)
    then show ?thesis
      unfolding closedValue_def totalValue_def
      by (intro subsequence_sum_le) (simp_all add: to_double_def)
  qed
  have ex: "totalValue ps = sum_list (map ?amt ps) \<and> closedValue ps = sum_list (map ?amt ?cl)"
    if w: "\<forall>p \<in> set ps. \<forall>v. value' p = Some v \<longrightarrow> v \<in> \<int> \<and> 0 \<le> v"
      and b: "sum_list (map ?amt ps) < 2 ^ 53"
  proof -
    have a: "?amt p \<in> \<int> \<and> 0 \<le> ?amt p" if "p \<in> set ps" for p
      using w that by (cases "value' p") auto
    then have wt: "\<forall>x \<in> set (map ?amt ps). x \<in> \<int> \<and> 0 \<le> x" by auto
    have wc: "\<forall>x \<in> set (map ?amt ?cl). x \<in> \<int> \<and> 0 \<le> x" using a by auto
    have "sum_list (map ?amt ?cl) \<le> sum_list (map ?amt ps)"
      using a by (intro sum_list_filter_le) blast
    then have bc: "sum_list (map ?amt ?cl) < 2 ^ 53" using b by linarith
    show ?thesis
      unfolding t c using js_sum_whole_exact[OF wt b] js_sum_whole_exact[OF wc bc] by simp
  qed
  show ?thesis using t c te ce le ex by blast
qed

text \<open>
  The theorem at three records with whole values: the totals are exact and the closed value
  is below the pipeline value.
\<close>

theorem totalValue_rounded_sum_witness:
  "closedValue [example_prospect ''p1'' Closed (Some 2000), example_prospect ''p2'' New None,
                example_prospect ''p3'' In_talks (Some 500)]
     \<le> totalValue [example_prospect ''p1'' Closed (Some 2000), example_prospect ''p2'' New None,
                   example_prospect ''p3'' In_talks (Some 500)] \<and>
   totalValue [example_prospect ''p1'' Closed (Some 2000), example_prospect ''p2'' New None,
               example_prospect ''p3'' In_talks (Some 500)] = 2500 \<and>
   closedValue [example_prospect ''p1'' Closed (Some 2000), example_prospect ''p2'' New None,
                example_prospect ''p3'' In_talks (Some 500)] = 2000"
  using totalValue_rounded_sum
    [of "[example_prospect ''p1'' Closed (Some 2000), example_prospect ''p2'' New None,
          example_prospect ''p3'' In_talks (Some 500)]"]
  by (simp add: example_prospect_def)

text \<open>
  The claim as it was stated, with the exact sum, fails for the amounts 0.10, 0.35 and
  0.05 as the language reads them: the additions round, and the pipeline value is not
  their sum.
\<close>

theorem totalValue_exact_sum_counterexample:
  "totalValue [example_prospect ''p1'' New (Some (to_double (1 / 10))),
               example_prospect ''p2'' In_talks (Some (to_double (35 / 100))),
               example_prospect ''p3'' Closed (Some (to_double (5 / 100)))]
     \<noteq> sum_list (map (\<lambda>p. case value' p of None \<Rightarrow> 0 | Some v \<Rightarrow> v)
              [example_prospect ''p1'' New (Some (to_double (1 / 10))),
               example_prospect ''p2'' In_talks (Some (to_double (35 / 100))),
               example_prospect ''p3'' Closed (Some (to_double (5 / 100)))])"
  by code_simp

text \<open>The three amounts of that list, as doubles.\<close>

lemma amounts_read: "to_double (1 / 10) = 3602879701896397 / 36028797018963968"
  "to_double (35 / 100) = 3152519739159347 / 9007199254740992"
  "to_double (5 / 100) = 3602879701896397 / 72057594037927936"
  by code_simp+

text \<open>
  C8. For three records in the stages new, in talks and closed with the values 1000, 500
  and 2000, whatever their other fields hold, the aggregator computes a total of 3, one
  record in each stage, the conversion rate \<^verbatim>\<open>"33.3"\<close>, the pipeline value 3500 and the
  closed value 2000.
\<close>

theorem metrics_scenario:
  "totalProspects [a\<lparr>stage := New, value' := Some 1000\<rparr>,
                   b\<lparr>stage := In_talks, value' := Some 500\<rparr>,
                   c\<lparr>stage := Closed, value' := Some 2000\<rparr>] = 3 \<and>
   newProspects [a\<lparr>stage := New, value' := Some 1000\<rparr>,
                 b\<lparr>stage := In_talks, value' := Some 500\<rparr>,
                 c\<lparr>stage := Closed, value' := Some 2000\<rparr>] = 1 \<and>
   inTalksProspects [a\<lparr>stage := New, value' := Some 1000\<rparr>,
                     b\<lparr>stage := In_talks, value' := Some 500\<rparr>,
                     c\<lparr>stage := Closed, value' := Some 2000\<rparr>] = 1 \<and>
   closedProspects [a\<lparr>stage := New, value' := Some 1000\<rparr>,
                    b\<lparr>stage := In_talks, value' := Some 500\<rparr>,
                    c\<lparr>stage := Closed, value' := Some 2000\<rparr>] = 1 \<and>
   conversionRate [a\<lparr>stage := New, value' := Some 1000\<rparr>,
                   b\<lparr>stage := In_talks, value' := Some 500\<rparr>,
                   c\<lparr>stage := Closed, value' := Some 2000\<rparr>] = ''33.3'' \<and>
   totalValue [a\<lparr>stage := New, value' := Some 1000\<rparr>,
               b\<lparr>stage := In_talks, value' := Some 500\<rparr>,
               c\<lparr>stage := Closed, value' := Some 2000\<rparr>] = 3500 \<and>
   closedValue [a\<lparr>stage := New, value' := Some 1000\<rparr>,
                b\<lparr>stage := In_talks, value' := Some 500\<rparr>,
                c\<lparr>stage := Closed, value' := Some 2000\<rparr>] = 2000"
proof -
  have r: "toFixed1 (js_mul (js_div 1 3) 100) = ''33.3''" by code_simp
  have s: "js_add (js_add (js_add 0 1000) 500) 2000 = 3500" "js_add 0 2000 = 2000"
    by code_simp+
  show ?thesis
    by (simp add: totalProspects_def newProspects_def inTalksProspects_def closedProspects_def
        conversionRate_def totalValue_def closedValue_def value_or_0_def r s)
qed

section \<open>The stage-change handler\<close>

text \<open>
  C2. Let a card be dropped on column \<open>B\<close>. If it came from \<open>B\<close>, the handler sends no
  request and leaves the list as it was, whatever the collaborator would have answered.
  If it came from another column and the update succeeds, one update request for the
  dragged id is sent, and the new list has the old length and holds, at each position,
  the old record with its stage set to \<open>B\<close> when its id is the dragged one, and the old
  record itself otherwise. When the ids of the list are distinct and the dragged record
  stands at position \<open>i\<close>, the new list is the old one with that one record replaced.
\<close>

theorem handleDragEnd_stage_change:
  assumes "destination result = Some B"
  shows "(source result = B \<longrightarrow>
            handleDragEnd resp result prev = \<lparr>prospects = prev, requests = [], toasts = []\<rparr>) \<and>
         (source result \<noteq> B \<longrightarrow>
            requests (handleDragEnd Succeeded result prev) = [Update_stage (draggableId result) B] \<and>
            length (prospects (handleDragEnd Succeeded result prev)) = length prev \<and>
            (\<forall>i < length prev.
               prospects (handleDragEnd Succeeded result prev) ! i =
                 (if id' (prev ! i) = draggableId result
                  then (prev ! i)\<lparr>stage := B\<rparr> else prev ! i)) \<and>
            (\<forall>i < length prev.
               distinct (map id' prev) \<and> id' (prev ! i) = draggableId result \<longrightarrow>
               prospects (handleDragEnd Succeeded result prev) = prev[i := (prev ! i)\<lparr>stage := B\<rparr>]))"
proof (intro conjI impI allI)
  assume "source result = B"
  then show "handleDragEnd resp result prev = \<lparr>prospects = prev, requests = [], toasts = []\<rparr>"
    using assms by (simp add: handleDragEnd_def)
next
  assume ne: "source result \<noteq> B"
  have l: "prospects (handleDragEnd Succeeded result prev) =
             map (\<lambda>p. if id' p = draggableId result then p\<lparr>stage := B\<rparr> else p) prev"
    using assms ne by (simp add: handleDragEnd_def)
  show "requests (handleDragEnd Succeeded result prev) = [Update_stage (draggableId result) B]"
    using assms ne by (simp add: handleDragEnd_def)
  show "length (prospects (handleDragEnd Succeeded result prev)) = length prev"
    unfolding l by simp
  show "prospects (handleDragEnd Succeeded result prev) ! i =
          (if id' (prev ! i) = draggableId result then (prev ! i)\<lparr>stage := B\<rparr> else prev ! i)"
    if "i < length prev" for i
    unfolding l using that by simp
  show "prospects (handleDragEnd Succeeded result prev) = prev[i := (prev ! i)\<lparr>stage := B\<rparr>]"
    if "i < length prev" "distinct (map id' prev) \<and> id' (prev ! i) = draggableId result" for i
    unfolding l using that map_single_update[of id' prev i "\<lambda>p. p\<lparr>stage := B\<rparr>"] by simp
qed

text \<open>
  A card dropped on its own column, and the first of two cards moved from the new column
  to the closed one.
\<close>

theorem handleDragEnd_stage_change_witness:
  "handleDragEnd Succeeded \<lparr>source = New, destination = Some New, draggableId = ''p1''\<rparr>
     [example_prospect ''p1'' New (Some 10), example_prospect ''p2'' New None]
     = \<lparr>prospects = [example_prospect ''p1'' New (Some 10), example_prospect ''p2'' New None],
        requests = [], toasts = []\<rparr> \<and>
   requests (handleDragEnd Succeeded \<lparr>source = New, destination = Some Closed, draggableId = ''p1''\<rparr>
     [example_prospect ''p1'' New (Some 10), example_prospect ''p2'' New None])
     = [Update_stage ''p1'' Closed] \<and>
   prospects (handleDragEnd Succeeded \<lparr>source = New, destination = Some Closed, draggableId = ''p1''\<rparr>
     [example_prospect ''p1'' New (Some 10), example_prospect ''p2'' New None])
     = [example_prospect ''p1'' Closed (Some 10), example_prospect ''p2'' New None]"
proof -
  let ?prev = "[example_prospect ''p1'' New (Some 10), example_prospect ''p2'' New None]"
  let ?same = "\<lparr>source = New, destination = Some New, draggableId = ''p1''\<rparr>"
  let ?move = "\<lparr>source = New, destination = Some Closed, draggableId = ''p1''\<rparr>"
  have d: "distinct (map id' ?prev)" "id' (?prev ! 0) = ''p1''"
    by (simp_all add: example_prospect_def)
  have a: "handleDragEnd Succeeded ?same ?prev = \<lparr>prospects = ?prev, requests = [], toasts = []\<rparr>"
    using handleDragEnd_stage_change[of ?same New Succeeded ?prev] by simp
  have m: "requests (handleDragEnd Succeeded ?move ?prev) = [Update_stage ''p1'' Closed] \<and>
           (\<forall>i < length ?prev.
              distinct (map id' ?prev) \<and> id' (?prev ! i) = ''p1'' \<longrightarrow>
              prospects (handleDragEnd Succeeded ?move ?prev)
                = ?prev[i := (?prev ! i)\<lparr>stage := Closed\<rparr>])"
    using handleDragEnd_stage_change[of ?move Closed Succeeded ?prev] by simp
  then have "prospects (handleDragEnd Succeeded ?move ?prev) = ?prev[0 := (?prev ! 0)\<lparr>stage := Closed\<rparr>]"
    using d by (auto simp del: distinct.simps list.map)
  then have "prospects (handleDragEnd Succeeded ?move ?prev)
               = [example_prospect ''p1'' Closed (Some 10), example_prospect ''p2'' New None]"
    by (simp add: example_prospect_def)
  then show ?thesis using a m by simp
qed

text \<open>
  C3. When the collaborator fails, the list after the handler is the list before it, and
  whenever a request was sent the handler shows the error notification.
\<close>

theorem handleDragEnd_failure:
  "prospects (handleDragEnd Failed result prev) = prev \<and>
   (requests (handleDragEnd Failed result prev) \<noteq> [] \<longrightarrow>
      toasts (handleDragEnd Failed result prev) =
        [\<lparr>title = ''Error'', description = ''Failed to update prospect stage'',
          destructive = True\<rparr>])"
  by (simp add: handleDragEnd_def split: option.splits)

theorem handleDragEnd_failure_witness:
  "prospects (handleDragEnd Failed \<lparr>source = New, destination = Some Closed, draggableId = ''p1''\<rparr>
     [example_prospect ''p1'' New (Some 10), example_prospect ''p2'' New None])
     = [example_prospect ''p1'' New (Some 10), example_prospect ''p2'' New None] \<and>
   requests (handleDragEnd Failed \<lparr>source = New, destination = Some Closed, draggableId = ''p1''\<rparr>
     [example_prospect ''p1'' New (Some 10), example_prospect ''p2'' New None])
     = [Update_stage ''p1'' Closed] \<and>
   toasts (handleDragEnd Failed \<lparr>source = New, destination = Some Closed, draggableId = ''p1''\<rparr>
     [example_prospect ''p1'' New (Some 10), example_prospect ''p2'' New None])
     = [\<lparr>title = ''Error'', description = ''Failed to update prospect stage'',
         destructive = True\<rparr>]"
proof -
  let ?o = "handleDragEnd Failed \<lparr>source = New, destination = Some Closed, draggableId = ''p1''\<rparr>
     [example_prospect ''p1'' New (Some 10), example_prospect ''p2'' New None]"
  have r: "requests ?o = [Update_stage ''p1'' Closed]" by (simp add: handleDragEnd_def)
  show ?thesis
    using handleDragEnd_failure
      [of "\<lparr>source = New, destination = Some Closed, draggableId = ''p1''\<rparr>"
          "[example_prospect ''p1'' New (Some 10), example_prospect ''p2'' New None]"] r
    by simp
qed

text \<open>
  C9. A drag that ends outside every column has no destination: the handler returns at
  once, sends no request, shows no notification and leaves the list as it was.
\<close>

theorem handleDragEnd_no_destination:
  assumes "destination result = None"
  shows "handleDragEnd resp result prev = \<lparr>prospects = prev, requests = [], toasts = []\<rparr>"
  using assms by (simp add: handleDragEnd_def)

theorem handleDragEnd_no_destination_witness:
  "handleDragEnd Succeeded \<lparr>source = New, destination = None, draggableId = ''p1''\<rparr>
     [example_prospect ''p1'' New (Some 10)]
   = \<lparr>prospects = [example_prospect ''p1'' New (Some 10)], requests = [], toasts = []\<rparr>"
  using handleDragEnd_no_destination
    [of "\<lparr>source = New, destination = None, draggableId = ''p1''\<rparr>" Succeeded]
  by simp

section \<open>Deletion\<close>

text \<open>
  C6. After a deletion that succeeds, the list is the old one without the records of the
  deleted id, in the old order: every record left has another id and was in the old
  list. The total and the count of each stage drop by the number of records of that id
  (in that stage), and the pipeline and closed values are the sums over the records of
  the other ids only.
\<close>

theorem handleDeleteProspect_removes:
  "prospects (handleDeleteProspect Succeeded prospectId prev)
     = filter (\<lambda>p. id' p \<noteq> prospectId) prev \<and>
   (\<forall>p \<in> set (prospects (handleDeleteProspect Succeeded prospectId prev)).
      id' p \<noteq> prospectId \<and> p \<in> set prev) \<and>
   totalProspects (prospects (handleDeleteProspect Succeeded prospectId prev))
     + length (filter (\<lambda>p. id' p = prospectId) prev) = totalProspects prev \<and>
   newProspects (prospects (handleDeleteProspect Succeeded prospectId prev))
     + length (filter (\<lambda>p. id' p = prospectId \<and> stage p = New) prev) = newProspects prev \<and>
   inTalksProspects (prospects (handleDeleteProspect Succeeded prospectId prev))
     + length (filter (\<lambda>p. id' p = prospectId \<and> stage p = In_talks) prev) = inTalksProspects prev \<and>
   closedProspects (prospects (handleDeleteProspect Succeeded prospectId prev))
     + length (filter (\<lambda>p. id' p = prospectId \<and> stage p = Closed) prev) = closedProspects prev \<and>
   totalValue (prospects (handleDeleteProspect Succeeded prospectId prev))
     = js_sum (map value_or_0 (filter (\<lambda>p. id' p \<noteq> prospectId) prev)) \<and>
   closedValue (prospects (handleDeleteProspect Succeeded prospectId prev))
     = js_sum (map value_or_0 (filter (\<lambda>p. id' p \<noteq> prospectId \<and> stage p = Closed) prev))"
proof -
  have l: "prospects (handleDeleteProspect Succeeded prospectId prev)
             = filter (\<lambda>p. id' p \<noteq> prospectId) prev"
    by (simp add: handleDeleteProspect_def)
  have s: "length (filter (\<lambda>p. id' p \<noteq> prospectId \<and> stage p = s) prev)
             + length (filter (\<lambda>p. id' p = prospectId \<and> stage p = s) prev)
           = length (filter (\<lambda>p. stage p = s) prev)" for s
    by (induction prev) auto
  have t: "length (filter (\<lambda>p. id' p \<noteq> prospectId) prev)
             + length (filter (\<lambda>p. id' p = prospectId) prev) = length prev"
    using sum_length_filter_compl[of "\<lambda>p. id' p = prospectId" prev] by simp
  show ?thesis
    unfolding l
    by (simp add: s t totalProspects_def newProspects_def inTalksProspects_def
        closedProspects_def totalValue_js_sum closedValue_js_sum)
qed

theorem handleDeleteProspect_removes_witness:
  "prospects (handleDeleteProspect Succeeded ''p1''
     [example_prospect ''p1'' Closed (Some 2000), example_prospect ''p2'' New (Some 500)])
     = [example_prospect ''p2'' New (Some 500)] \<and>
   totalProspects (prospects (handleDeleteProspect Succeeded ''p1''
     [example_prospect ''p1'' Closed (Some 2000), example_prospect ''p2'' New (Some 500)])) = 1 \<and>
   closedProspects (prospects (handleDeleteProspect Succeeded ''p1''
     [example_prospect ''p1'' Closed (Some 2000), example_prospect ''p2'' New (Some 500)])) = 0 \<and>
   totalValue (prospects (handleDeleteProspect Succeeded ''p1''
     [example_prospect ''p1'' Closed (Some 2000), example_prospect ''p2'' New (Some 500)])) = 500 \<and>
   closedValue (prospects (handleDeleteProspect Succeeded ''p1''
     [example_prospect ''p1'' Closed (Some 2000), example_prospect ''p2'' New (Some 500)])) = 0"
proof -
  let ?prev = "[example_prospect ''p1'' Closed (Some 2000), example_prospect ''p2'' New (Some 500)]"
  have "prospects (handleDeleteProspect Succeeded ''p1'' ?prev)
          = filter (\<lambda>p. id' p \<noteq> ''p1'') ?prev"
    using handleDeleteProspect_removes[of "''p1''" ?prev] by blast
  then have l: "prospects (handleDeleteProspect Succeeded ''p1'' ?prev)
                  = [example_prospect ''p2'' New (Some 500)]"
    by (simp add: example_prospect_def)
  have s: "js_add 0 500 = 500" by code_simp
  show ?thesis
    unfolding l
    by (simp add: example_prospect_def s value_or_0_def totalProspects_def closedProspects_def
        totalValue_def closedValue_def)
qed

section \<open>The value on a card\<close>

text \<open>
  C10. For the value zero and for an absent value the formatter returns the empty string,
  and no badge is rendered for either. The two cards still differ: where the card of an
  absent value shows nothing, the card of the value zero shows the text \<^verbatim>\<open>0\<close>.
\<close>

theorem value_zero_rendering:
  "formatCurrency format (Some 0) = [] \<and>
   formatCurrency format None = [] \<and>
   value_child format (p\<lparr>value' := None\<rparr>) = Nothing \<and>
   value_child format (p\<lparr>value' := Some 0\<rparr>) = Text_node ''0''"
  by (simp add: formatCurrency_def value_child_def)

section \<open>The create form\<close>

text \<open>
  C4. When a user is signed in and the fields phone, company, notes and value of the form
  are absent or empty, and the stage field is absent, empty or still at its default
  \<^verbatim>\<open>new\<close>, the payload passed to the insert operation has the stage \<^verbatim>\<open>new\<close> and no
  phone, company, notes or value; the name and the email are passed as entered.
\<close>

theorem handleSubmit_required_only:
  assumes "formData ''phone'' = None \<or> formData ''phone'' = Some []"
    and "formData ''company'' = None \<or> formData ''company'' = Some []"
    and "formData ''notes'' = None \<or> formData ''notes'' = Some []"
    and "formData ''value'' = None \<or> formData ''value'' = Some []"
    and "formData ''stage'' = None \<or> formData ''stage'' = Some [] \<or> formData ''stage'' = Some ''new''"
  shows "handleSubmit parseFloat (Some uid) formData =
           Some \<lparr>pd_user_id = uid, pd_full_name = formData ''fullName'',
                 pd_email = formData ''email'', pd_phone = None, pd_company = None,
                 pd_stage = ''new'', pd_value = None, pd_notes = None\<rparr>"
  using assms by (auto simp: handleSubmit_def or_null_def)

theorem handleSubmit_required_only_witness:
  "handleSubmit (\<lambda>s. 0 :: rat) (Some ''u1'')
     [''fullName'' \<mapsto> ''Ann Lee'', ''email'' \<mapsto> ''ann@example.org'', ''phone'' \<mapsto> [],
      ''company'' \<mapsto> [], ''stage'' \<mapsto> ''new'', ''value'' \<mapsto> [], ''notes'' \<mapsto> []]
   = Some \<lparr>pd_user_id = ''u1'', pd_full_name = Some ''Ann Lee'',
           pd_email = Some ''ann@example.org'', pd_phone = None, pd_company = None,
           pd_stage = ''new'', pd_value = None, pd_notes = None\<rparr>"
  using handleSubmit_required_only
    [of "[''fullName'' \<mapsto> ''Ann Lee'', ''email'' \<mapsto> ''ann@example.org'', ''phone'' \<mapsto> [],
          ''company'' \<mapsto> [], ''stage'' \<mapsto> ''new'', ''value'' \<mapsto> [], ''notes'' \<mapsto> []]"
        "\<lambda>s. 0 :: rat" "''u1''"]
  by simp

section \<open>Sign-up\<close>

text \<open>
  C7. When the identity collaborator rejects a sign-up, the notification is the
  \<^verbatim>\<open>Account exists\<close> one if \<^verbatim>\<open>already registered\<close> occurs in the message of the error,
  and otherwise the \<^verbatim>\<open>Sign up failed\<close> one, whose description is that message unchanged.
\<close>

theorem handleSignUp_rejected:
  "handleSignUp (Some message) =
     (if \<exists>pre post. message = pre @ ''already registered'' @ post
      then \<lparr>title = ''Account exists'',
            description = ''This email is already registered. Please sign in instead.'',
            destructive = True\<rparr>
      else \<lparr>title = ''Sign up failed'', description = message, destructive = True\<rparr>)"
  by (simp add: handleSignUp_def includes'_iff)

theorem handleSignUp_rejected_witness:
  "handleSignUp (Some ''User already registered'') =
     \<lparr>title = ''Account exists'',
      description = ''This email is already registered. Please sign in instead.'',
      destructive = True\<rparr> \<and>
   handleSignUp (Some ''Password should be at least 6 characters'') =
     \<lparr>title = ''Sign up failed'',
      description = ''Password should be at least 6 characters'',
      destructive = True\<rparr>"
proof -
  have a: "\<exists>pre post. ''User already registered'' = pre @ ''already registered'' @ post"
    unfolding includes'_iff[symmetric] by simp
  have b: "\<not> (\<exists>pre post. ''Password should be at least 6 characters''
                 = pre @ ''already registered'' @ post)"
    unfolding includes'_iff[symmetric] by simp
  show ?thesis
    using handleSignUp_rejected[of "''User already registered''"]
      handleSignUp_rejected[of "''Password should be at least 6 characters''"] a b
    by simp
qed

end
